theory Spec2Isabelle
  imports Main
begin

section \<open>Data model\<close>

text \<open>
  The two entry points of \<^verbatim>\<open>interppotential_calc_potential.c\<close> move values of type
  \<^verbatim>\<open>double\<close> between arrays and never compute with them, so the type of a
  \<^verbatim>\<open>double\<close> is a type variable \<open>'d\<close>: equality on it is identity of the stored
  value. An \<^verbatim>\<open>int\<close> is an \<open>int\<close>; the only integer arithmetic of the entry points is
  the increment of a loop counter below its bound, which cannot wrap.

  Memory holding doubles is one store, a function from cell addresses to values; a
  \<^verbatim>\<open>double *\<close> argument is the address of its first cell, and \<^verbatim>\<open>*(p+k)\<close> is the
  cell \<open>p + k\<close>. The arrays \<open>R\<close>, \<open>z\<close>, \<open>pot_args\<close> and \<open>out\<close> may therefore overlap,
  as they may in C.
\<close>

datatype error = OutOfBounds

datatype block = ArgsBlock | RowBlock

datatype release = Interp2dFree nat | AccelFree nat | Free block

text \<open>
  \<^verbatim>\<open>struct potentialArg\<close> is declared in \<^verbatim>\<open>galpy_potentials.h\<close>. The entry points read
  two of its fields, the pointers \<^verbatim>\<open>i2d\<close> and \<^verbatim>\<open>acc\<close> (\<open>None\<close> is the null pointer, \<open>Some h\<close>
  the handle \<open>h\<close>); every other field is the component \<open>params\<close>.
\<close>

record 'p potentialArg =
  i2d :: "nat option"
  acc :: "nat option"
  params :: 'p

text \<open>
  The state the entry points act on: the store of doubles, the cell \<^verbatim>\<open>*err\<close>, the
  indeterminate contents of the block that \<^verbatim>\<open>malloc\<close> returns for the scratch row, and the
  calls to the release functions made so far, oldest first.
\<close>

record 'd machine =
  dmem :: "int \<Rightarrow> 'd"
  err :: int
  fresh :: "int \<Rightarrow> 'd"
  released :: "release list"

section \<open>Collaborators that are not part of the file\<close>

text \<open>
  Modelled from the spec: \<^verbatim>\<open>put_row\<close> (declared in \<^verbatim>\<open>interp_2d.h\<close>, its body is not among
  the sources). The spec's Grid Walker "copies the row into Output Buffer at offset
  i\<times>nz": \<open>put_row m x row y nz\<close> is the store \<open>m\<close> after the \<open>nz\<close> cells of the scratch
  row \<open>y\<close> have been copied to the cells \<open>x + row * nz + k\<close>, \<open>0 \<le> k < nz\<close>. The offset
  \<open>row * nz + k\<close> is the exact integer.
\<close>

definition put_row :: "(int \<Rightarrow> 'd) \<Rightarrow> int \<Rightarrow> int \<Rightarrow> (int \<Rightarrow> 'd) \<Rightarrow> int \<Rightarrow> (int \<Rightarrow> 'd)" where
  "put_row m x row y nz =
     (\<lambda>a. if x + row * nz \<le> a \<and> a < x + row * nz + nz then y (a - (x + row * nz)) else m a)"

text \<open>
  Modelled from the spec: the release functions \<^verbatim>\<open>interp_2d_free\<close> (\<^verbatim>\<open>interp_2d.h\<close>),
  \<^verbatim>\<open>gsl_interp_accel_free\<close> (GSL) and \<^verbatim>\<open>free\<close> (libc). Each call releases the one
  structure it is given; the model records the call.
\<close>

definition interp_2d_free :: "nat \<Rightarrow> 'd machine \<Rightarrow> 'd machine" where
  "interp_2d_free h s = s\<lparr>released := released s @ [Interp2dFree h]\<rparr>"

definition gsl_interp_accel_free :: "nat \<Rightarrow> 'd machine \<Rightarrow> 'd machine" where
  "gsl_interp_accel_free h s = s\<lparr>released := released s @ [AccelFree h]\<rparr>"

definition free :: "block \<Rightarrow> 'd machine \<Rightarrow> 'd machine" where
  "free b s = s\<lparr>released := released s @ [Free b]\<rparr>"

text \<open>
  \<^verbatim>\<open>parse_actionAngleArgs\<close> and \<^verbatim>\<open>evaluatePotentials\<close> are parameters of the model:
  \<^item> \<open>parse npot pot_type args k\<close> is what the parser stores in entry \<open>k\<close> of the array,
    given the count, the type codes and the cells \<open>args j = *(pot_args+j)\<close>;
  \<^item> \<open>ev R Z npot actionAngleArgs\<close> is the value \<^verbatim>\<open>evaluatePotentials\<close> returns.
  Both are called with no pointer to \<^verbatim>\<open>*err\<close> and none to \<open>out\<close>. They are taken as the
  spec describes them: the parser reads the type codes and the parameter cells and writes
  the entries only, and the evaluator's value is determined by its four arguments and
  the call changes nothing that a later call reads.

  Lines 28 and 29 of the source allocate \<open>npot\<close> entries and have the parser fill them.
  The array has \<open>npot\<close> entries whatever the parser does (none when \<open>npot \<le> 0\<close>).
  Every \<^verbatim>\<open>malloc\<close> is taken to succeed.
\<close>

definition parsed_args ::
  "(int \<Rightarrow> (int \<Rightarrow> int) \<Rightarrow> (int \<Rightarrow> 'd) \<Rightarrow> nat \<Rightarrow> 'p potentialArg) \<Rightarrow>
   int \<Rightarrow> (int \<Rightarrow> int) \<Rightarrow> int \<Rightarrow> (int \<Rightarrow> 'd) \<Rightarrow> 'p potentialArg list" where
  "parsed_args parse npot pot_type pot_args m =
     map (parse npot pot_type (\<lambda>j. m (pot_args + j))) [0..<nat npot]"

section \<open>The entry points\<close>

text \<open>The inner loop of \<^verbatim>\<open>calc_potential\<close> (lines 32 to 34): it fills the scratch row.\<close>

function calc_potential_jj ::
  "('d \<Rightarrow> 'd \<Rightarrow> int \<Rightarrow> 'e list \<Rightarrow> 'd) \<Rightarrow> (int \<Rightarrow> 'd) \<Rightarrow> int \<Rightarrow> int \<Rightarrow> int \<Rightarrow> int \<Rightarrow>
   int \<Rightarrow> 'e list \<Rightarrow> int \<Rightarrow> (int \<Rightarrow> 'd) \<Rightarrow> (int \<Rightarrow> 'd)" where
  "calc_potential_jj ev m R ii nz z npot args jj row =
     (if jj < nz
      then calc_potential_jj ev m R ii nz z npot args (jj + 1)
             (row(jj := ev (m (R + ii)) (m (z + jj)) npot args))
      else row)"
  by pat_completeness auto
termination
  by (relation "measure (\<lambda>(ev, m, R, ii, nz, z, npot, args, jj, row). nat (nz - jj))") auto

text \<open>
  The outer loop (lines 31 to 36): each round fills the scratch row from the store as it
  is then and copies it to the output. It returns the scratch row and the store.
\<close>

function calc_potential_ii ::
  "('d \<Rightarrow> 'd \<Rightarrow> int \<Rightarrow> 'e list \<Rightarrow> 'd) \<Rightarrow> int \<Rightarrow> int \<Rightarrow> int \<Rightarrow> int \<Rightarrow>
   int \<Rightarrow> 'e list \<Rightarrow> int \<Rightarrow> int \<Rightarrow> (int \<Rightarrow> 'd) \<Rightarrow> (int \<Rightarrow> 'd) \<Rightarrow> (int \<Rightarrow> 'd) \<times> (int \<Rightarrow> 'd)" where
  "calc_potential_ii ev nR R nz z npot args out ii row m =
     (if ii < nR
      then (let row' = calc_potential_jj ev m R ii nz z npot args 0 row
            in calc_potential_ii ev nR R nz z npot args out (ii + 1) row' (put_row m out ii row' nz))
      else (row, m))"
  by pat_completeness auto
termination
  by (relation "measure (\<lambda>(ev, nR, R, nz, z, npot, args, out, ii, row, m). nat (nR - ii))") auto

text \<open>The loop of \<^verbatim>\<open>eval_potential\<close> (lines 57 to 59): each value goes straight to the output.\<close>

function eval_potential_ii ::
  "('d \<Rightarrow> 'd \<Rightarrow> int \<Rightarrow> 'e list \<Rightarrow> 'd) \<Rightarrow> int \<Rightarrow> int \<Rightarrow> int \<Rightarrow>
   int \<Rightarrow> 'e list \<Rightarrow> int \<Rightarrow> int \<Rightarrow> (int \<Rightarrow> 'd) \<Rightarrow> (int \<Rightarrow> 'd)" where
  "eval_potential_ii ev nR R z npot args out ii m =
     (if ii < nR
      then eval_potential_ii ev nR R z npot args out (ii + 1)
             (m(out + ii := ev (m (R + ii)) (m (z + ii)) npot args))
      else m)"
  by pat_completeness auto
termination
  by (relation "measure (\<lambda>(ev, nR, R, z, npot, args, out, ii, m). nat (nR - ii))") auto

declare calc_potential_jj.simps [simp del]
declare calc_potential_ii.simps [simp del]
declare eval_potential_ii.simps [simp del]

text \<open>
  \<^verbatim>\<open>calc_potential\<close> (lines 16 to 43). After the loops the code reads
  \<^verbatim>\<open>actionAngleArgs->i2d\<close> and \<^verbatim>\<open>actionAngleArgs->acc\<close>, the fields of entry 0. With no
  entry in the array that read is outside the allocated block: the result is then
  \<open>Inl (OutOfBounds, s)\<close>, with \<open>s\<close> the state at the read. Otherwise the result is
  \<open>Inr s\<close>, the state on return.
\<close>

definition calc_potential ::
  "(int \<Rightarrow> (int \<Rightarrow> int) \<Rightarrow> (int \<Rightarrow> 'd) \<Rightarrow> nat \<Rightarrow> 'p potentialArg) \<Rightarrow>
   ('d \<Rightarrow> 'd \<Rightarrow> int \<Rightarrow> 'p potentialArg list \<Rightarrow> 'd) \<Rightarrow>
   int \<Rightarrow> int \<Rightarrow> int \<Rightarrow> int \<Rightarrow> int \<Rightarrow> (int \<Rightarrow> int) \<Rightarrow> int \<Rightarrow> int \<Rightarrow>
   'd machine \<Rightarrow> (error \<times> 'd machine) + 'd machine" where
  "calc_potential parse ev nR R nz z npot pot_type pot_args out s =
     (let row = fresh s;
          actionAngleArgs = parsed_args parse npot pot_type pot_args (dmem s);
          s1 = s\<lparr>dmem := snd (calc_potential_ii ev nR R nz z npot actionAngleArgs out 0 row (dmem s))\<rparr>
      in case actionAngleArgs of
           [] \<Rightarrow> Inl (OutOfBounds, s1)
         | a # _ \<Rightarrow>
             (let s2 = (case i2d a of Some h \<Rightarrow> interp_2d_free h s1 | None \<Rightarrow> s1);
                  s3 = (case acc a of Some h \<Rightarrow> gsl_interp_accel_free h s2 | None \<Rightarrow> s2)
              in Inr (free RowBlock (free ArgsBlock s3))))"

text \<open>\<^verbatim>\<open>eval_potential\<close> (lines 44 to 65), with the same reads of entry 0 after its loop.\<close>

definition eval_potential ::
  "(int \<Rightarrow> (int \<Rightarrow> int) \<Rightarrow> (int \<Rightarrow> 'd) \<Rightarrow> nat \<Rightarrow> 'p potentialArg) \<Rightarrow>
   ('d \<Rightarrow> 'd \<Rightarrow> int \<Rightarrow> 'p potentialArg list \<Rightarrow> 'd) \<Rightarrow>
   int \<Rightarrow> int \<Rightarrow> int \<Rightarrow> int \<Rightarrow> (int \<Rightarrow> int) \<Rightarrow> int \<Rightarrow> int \<Rightarrow>
   'd machine \<Rightarrow> (error \<times> 'd machine) + 'd machine" where
  "eval_potential parse ev nR R z npot pot_type pot_args out s =
     (let actionAngleArgs = parsed_args parse npot pot_type pot_args (dmem s);
          s1 = s\<lparr>dmem := eval_potential_ii ev nR R z npot actionAngleArgs out 0 (dmem s)\<rparr>
      in case actionAngleArgs of
           [] \<Rightarrow> Inl (OutOfBounds, s1)
         | a # _ \<Rightarrow>
             (let s2 = (case i2d a of Some h \<Rightarrow> interp_2d_free h s1 | None \<Rightarrow> s1);
                  s3 = (case acc a of Some h \<Rightarrow> gsl_interp_accel_free h s2 | None \<Rightarrow> s2)
              in Inr (free ArgsBlock s3)))"

text \<open>The state an entry point leaves: the one on return, or the one at the faulting read.\<close>

definition final :: "(error \<times> 's) + 's \<Rightarrow> 's" where
  "final r = (case r of Inl (e, s) \<Rightarrow> s | Inr s \<Rightarrow> s)"

text \<open>
  Two blocks of cells are separate when one of them is empty or they do not overlap:
  \<open>separate a n b k\<close> for the \<open>n\<close> cells from \<open>a\<close> and the \<open>k\<close> cells from \<open>b\<close>.
\<close>

definition separate :: "int \<Rightarrow> int \<Rightarrow> int \<Rightarrow> int \<Rightarrow> bool" where
  "separate a n b k = (n \<le> 0 \<or> k \<le> 0 \<or> a + n \<le> b \<or> b + k \<le> a)"

text \<open>
  What the parser reads is the parser's contract. \<open>reads_only parse npot pot_type n\<close> says
  that, for the count \<open>npot\<close> and the type codes \<open>pot_type\<close>, the \<open>npot\<close> entries the parser
  builds are determined by the first \<open>npot\<close> type codes and the first \<open>n\<close> parameter
  cells: \<open>n\<close> is the number of parameter values the \<open>npot\<close> descriptors consume.
\<close>

definition reads_only ::
  "(int \<Rightarrow> (int \<Rightarrow> int) \<Rightarrow> (int \<Rightarrow> 'd) \<Rightarrow> nat \<Rightarrow> 'p potentialArg) \<Rightarrow> int \<Rightarrow> (int \<Rightarrow> int) \<Rightarrow> int \<Rightarrow> bool" where
  "reads_only parse npot pot_type n =
     (\<forall>pot_type' args args'.
        (\<forall>k. 0 \<le> k \<and> k < npot \<longrightarrow> pot_type' k = pot_type k) \<longrightarrow>
        (\<forall>j. 0 \<le> j \<and> j < n \<longrightarrow> args' j = args j) \<longrightarrow>
        (\<forall>k. k < nat npot \<longrightarrow> parse npot pot_type' args' k = parse npot pot_type args k))"

section \<open>The Composite Evaluator of the spec\<close>

text \<open>
  Modelled from the spec: \<^verbatim>\<open>evaluatePotentials\<close> (declared in \<^verbatim>\<open>galpy_potentials.h\<close>, its
  body is not among the sources). The spec's Composite Evaluator returns "the sum, over
  all entries, of each entry's contribution as computed by an external per-type
  evaluation function". The sum starts from \<open>zero\<close> and adds with \<open>add\<close>, the zero and the
  addition of \<^verbatim>\<open>double\<close>; \<open>contribution R Z a\<close> is what the evaluation function of
  entry \<open>a\<close> returns at \<open>(R, Z)\<close>.
\<close>

definition evaluatePotentials ::
  "'d \<Rightarrow> ('d \<Rightarrow> 'd \<Rightarrow> 'd) \<Rightarrow> ('d \<Rightarrow> 'd \<Rightarrow> 'e \<Rightarrow> 'd) \<Rightarrow> 'd \<Rightarrow> 'd \<Rightarrow> int \<Rightarrow> 'e list \<Rightarrow> 'd" where
  "evaluatePotentials zero add contribution R Z nargs potentialArgs =
     fold (\<lambda>a pot. add pot (contribution R Z a)) (take (nat nargs) potentialArgs) zero"

section \<open>Sample collaborators and a sample state\<close>

text \<open>
  Concrete collaborators for evaluating the entry points, with \<open>int\<close> in the place of
  \<^verbatim>\<open>double\<close>. The sample parser knows two type codes: 13, a component backed by an
  interpolation table (entry \<open>k\<close> owns the table \<open>2k\<close> and the accelerator \<open>2k + 1\<close>), and
  0, a component with no auxiliary structure; either takes its one parameter from cell
  \<open>k\<close> of \<open>pot_args\<close>. Any other code is not recognized: the entry gets null pointers and
  the parameter 0. A component contributes its parameter times \<open>100 R + Z\<close>. In the sample
  state every cell of the store holds its own address and \<^verbatim>\<open>*err\<close> is 0.
\<close>

definition sample_parse :: "int \<Rightarrow> (int \<Rightarrow> int) \<Rightarrow> (int \<Rightarrow> int) \<Rightarrow> nat \<Rightarrow> int potentialArg" where
  "sample_parse npot pot_type args k =
     (if pot_type (int k) = 13
      then \<lparr>i2d = Some (2 * k), acc = Some (2 * k + 1), params = args (int k)\<rparr>
      else if pot_type (int k) = 0 then \<lparr>i2d = None, acc = None, params = args (int k)\<rparr>
      else \<lparr>i2d = None, acc = None, params = 0\<rparr>)"

definition sample_contribution :: "int \<Rightarrow> int \<Rightarrow> int potentialArg \<Rightarrow> int" where
  "sample_contribution R Z a = params a * (100 * R + Z)"

definition sample_eval :: "int \<Rightarrow> int \<Rightarrow> int \<Rightarrow> int potentialArg list \<Rightarrow> int" where
  "sample_eval = evaluatePotentials 0 (+) sample_contribution"

definition sample_state :: "int machine" where
  "sample_state = \<lparr>dmem = (\<lambda>a. a), err = 0, fresh = (\<lambda>a. 0), released = []\<rparr>"

text \<open>
  A second state and a second array of type codes. They agree with the sample state and
  with the all-zero codes on what a call with \<open>R = 10\<close>, \<open>nR = 2\<close>, \<open>z = 20\<close>, \<open>nz = 3\<close>,
  \<open>pot_args = 30\<close> and \<open>npot = 1\<close> is given, and differ in the cells 12, 23 and 31 behind
  the three arrays, in the output cell 105, in \<^verbatim>\<open>*err\<close>, in the contents of fresh blocks, in
  the calls recorded and in every type code after the first.
\<close>

definition other_state :: "int machine" where
  "other_state =
     \<lparr>dmem = (\<lambda>a. if a = 12 \<or> a = 23 \<or> a = 31 \<or> a = 105 then 999 else a), err = 5,
      fresh = (\<lambda>a. 7), released = [Free RowBlock]\<rparr>"

definition other_types :: "int \<Rightarrow> int" where
  "other_types k = (if k = 0 then 0 else 13)"

section \<open>The loops\<close>

text \<open>The inner loop writes the cells \<open>jj, \<dots>, nz - 1\<close> of the scratch row and no other.\<close>

lemma calc_potential_jj_outside:
  "\<not> (jj \<le> k \<and> k < nz) \<Longrightarrow> calc_potential_jj ev m R ii nz z npot args jj row k = row k"
proof (induction ev m R ii nz z npot args jj row rule: calc_potential_jj.induct)
  case (1 ev m R ii nz z npot args jj row)
  show ?case
  proof (cases "jj < nz")
    case True
    with "1.prems" have "\<not> (jj + 1 \<le> k \<and> k < nz)" and "k \<noteq> jj" by auto
    with "1.IH" [OF True] True show ?thesis
      by (subst calc_potential_jj.simps) (simp add: fun_upd_def)
  next
    case False
    then show ?thesis by (subst calc_potential_jj.simps) simp
  qed
qed

lemma calc_potential_jj_inside:
  "jj \<le> k \<Longrightarrow> k < nz \<Longrightarrow>
   calc_potential_jj ev m R ii nz z npot args jj row k = ev (m (R + ii)) (m (z + k)) npot args"
proof (induction ev m R ii nz z npot args jj row rule: calc_potential_jj.induct)
  case (1 ev m R ii nz z npot args jj row)
  from "1.prems" have lt: "jj < nz" by simp
  show ?case
  proof (cases "k = jj")
    case True
    then show ?thesis using lt
      by (subst calc_potential_jj.simps) (simp add: calc_potential_jj_outside)
  next
    case False
    with "1.prems" have "jj + 1 \<le> k" by simp
    from "1.IH" [OF lt this "1.prems"(2)] lt show ?thesis
      by (subst calc_potential_jj.simps) (simp add: fun_upd_def)
  qed
qed

lemma put_row_outside:
  "\<not> (x + row * nz \<le> a \<and> a < x + row * nz + nz) \<Longrightarrow> put_row m x row y nz a = m a"
  by (auto simp: put_row_def)

lemma put_row_inside:
  "0 \<le> j \<Longrightarrow> j < nz \<Longrightarrow> put_row m x row y nz (x + row * nz + j) = y j"
  by (simp add: put_row_def)

lemma put_row_empty: "nz \<le> 0 \<Longrightarrow> put_row m x row y nz = m"
  by (rule ext) (auto simp: put_row_def)

lemma calc_potential_ii_no_columns: "nz \<le> 0 \<Longrightarrow> snd (calc_potential_ii ev nR R nz z npot args out ii row m) = m"
proof (induction ev nR R nz z npot args out ii row m rule: calc_potential_ii.induct)
  case (1 ev nR R nz z npot args out ii row m)
  show ?case
  proof (cases "ii < nR")
    case True
    from "1.IH" [OF True refl "1.prems"] True "1.prems" show ?thesis
      by (subst calc_potential_ii.simps) (simp add: Let_def put_row_empty)
  next
    case False
    then show ?thesis by (subst calc_potential_ii.simps) simp
  qed
qed

lemma row_start_mono: "(0::int) < nz \<Longrightarrow> i < k \<Longrightarrow> i * nz + nz \<le> k * nz"
proof -
  assume nz: "0 < nz" and "i < k"
  then have "i + 1 \<le> k" by simp
  then have "(i + 1) * nz \<le> k * nz" using nz by (intro mult_right_mono) simp_all
  then show ?thesis by (simp add: algebra_simps)
qed

lemma calc_potential_ii_frame:
  "0 < nz \<Longrightarrow> \<not> (out + ii * nz \<le> a \<and> a < out + nR * nz) \<Longrightarrow>
   snd (calc_potential_ii ev nR R nz z npot args out ii row m) a = m a"
proof (induction ev nR R nz z npot args out ii row m rule: calc_potential_ii.induct)
  case (1 ev nR R nz z npot args out ii row m)
  show ?case
  proof (cases "ii < nR")
    case True
    note nz = "1.prems"(1)
    have e1: "ii * nz + nz \<le> nR * nz" using nz True
      by (rule row_start_mono)
    have a1: "\<not> (out + (ii + 1) * nz \<le> a \<and> a < out + nR * nz)"
      using "1.prems"(2) nz by (auto simp: algebra_simps)
    have a2: "\<not> (out + ii * nz \<le> a \<and> a < out + ii * nz + nz)"
      using "1.prems"(2) e1 by auto
    from "1.IH" [OF True refl nz a1] True a2 show ?thesis
      by (subst calc_potential_ii.simps) (simp add: Let_def put_row_outside)
  next
    case False
    then show ?thesis by (subst calc_potential_ii.simps) simp
  qed
qed


lemma calc_potential_ii_cell:
  "ii \<le> i \<Longrightarrow> i < nR \<Longrightarrow> 0 \<le> j \<Longrightarrow> j < nz \<Longrightarrow>
   (\<And>k. ii \<le> k \<Longrightarrow> k < nR \<Longrightarrow> \<not> (out + ii * nz \<le> R + k \<and> R + k < out + nR * nz)) \<Longrightarrow>
   (\<And>k. 0 \<le> k \<Longrightarrow> k < nz \<Longrightarrow> \<not> (out + ii * nz \<le> z + k \<and> z + k < out + nR * nz)) \<Longrightarrow>
   snd (calc_potential_ii ev nR R nz z npot args out ii row m) (out + i * nz + j) =
   ev (m (R + i)) (m (z + j)) npot args"
proof (induction ev nR R nz z npot args out ii row m rule: calc_potential_ii.induct)
  case (1 ev nR R nz z npot args out ii row m)
  from "1.prems" have lt: "ii < nR" and nz: "0 < nz" by simp_all
  define row' where "row' = calc_potential_jj ev m R ii nz z npot args 0 row"
  define m' where "m' = put_row m out ii row' nz"
  have unfold: "snd (calc_potential_ii ev nR R nz z npot args out ii row m) =
                snd (calc_potential_ii ev nR R nz z npot args out (ii + 1) row' m')"
    using lt by (subst calc_potential_ii.simps) (simp add: Let_def row'_def m'_def)
  have e1: "ii * nz + nz \<le> nR * nz" using nz lt by (rule row_start_mono)
  show ?case
  proof (cases "i = ii")
    case True
    have "\<not> (out + (ii + 1) * nz \<le> out + ii * nz + j \<and> out + ii * nz + j < out + nR * nz)"
      using "1.prems"(4) by (simp add: algebra_simps)
    then have "snd (calc_potential_ii ev nR R nz z npot args out (ii + 1) row' m') (out + ii * nz + j) =
               m' (out + ii * nz + j)"
      using nz by (intro calc_potential_ii_frame)
    also have "\<dots> = row' j"
      unfolding m'_def using "1.prems"(3,4) by (rule put_row_inside)
    also have "\<dots> = ev (m (R + ii)) (m (z + j)) npot args"
      unfolding row'_def using "1.prems"(3,4) by (rule calc_potential_jj_inside)
    finally show ?thesis using True unfold by simp
  next
    case False
    with "1.prems"(1) have le: "ii + 1 \<le> i" by simp
    have sepR: "\<not> (out + (ii + 1) * nz \<le> R + k \<and> R + k < out + nR * nz)"
      if "ii + 1 \<le> k" "k < nR" for k
      using "1.prems"(5) [of k] that nz by (auto simp: algebra_simps)
    have sepz: "\<not> (out + (ii + 1) * nz \<le> z + k \<and> z + k < out + nR * nz)"
      if "0 \<le> k" "k < nz" for k
      using "1.prems"(6) [of k] that nz by (auto simp: algebra_simps)
    have "snd (calc_potential_ii ev nR R nz z npot args out (ii + 1) row' m') (out + i * nz + j) =
          ev (m' (R + i)) (m' (z + j)) npot args"
      using "1.IH" [OF lt row'_def le "1.prems"(2,3,4) sepR sepz]
      unfolding m'_def row'_def by simp
    moreover have "m' (R + i) = m (R + i)"
      unfolding m'_def using "1.prems"(5) [of i] "1.prems"(1,2) e1
      by (intro put_row_outside) auto
    moreover have "m' (z + j) = m (z + j)"
      unfolding m'_def using "1.prems"(6) [of j] "1.prems"(3,4) e1
      by (intro put_row_outside) auto
    ultimately show ?thesis using unfold by simp
  qed
qed

lemma calc_potential_ii_every:
  "(\<And>x y. Q (ev x y npot args)) \<Longrightarrow> ii \<le> i \<Longrightarrow> i < nR \<Longrightarrow> 0 \<le> j \<Longrightarrow> j < nz \<Longrightarrow>
   Q (snd (calc_potential_ii ev nR R nz z npot args out ii row m) (out + i * nz + j))"
proof (induction ev nR R nz z npot args out ii row m rule: calc_potential_ii.induct)
  case (1 ev nR R nz z npot args out ii row m)
  from "1.prems" have lt: "ii < nR" and nz: "0 < nz" by simp_all
  define row' where "row' = calc_potential_jj ev m R ii nz z npot args 0 row"
  define m' where "m' = put_row m out ii row' nz"
  have unfold: "snd (calc_potential_ii ev nR R nz z npot args out ii row m) =
                snd (calc_potential_ii ev nR R nz z npot args out (ii + 1) row' m')"
    using lt by (subst calc_potential_ii.simps) (simp add: Let_def row'_def m'_def)
  show ?case
  proof (cases "i = ii")
    case True
    have "\<not> (out + (ii + 1) * nz \<le> out + ii * nz + j \<and> out + ii * nz + j < out + nR * nz)"
      using "1.prems"(5) by (simp add: algebra_simps)
    then have "snd (calc_potential_ii ev nR R nz z npot args out (ii + 1) row' m') (out + ii * nz + j) =
               m' (out + ii * nz + j)"
      using nz by (intro calc_potential_ii_frame)
    also have "\<dots> = row' j"
      unfolding m'_def using "1.prems"(4,5) by (rule put_row_inside)
    also have "\<dots> = ev (m (R + ii)) (m (z + j)) npot args"
      unfolding row'_def using "1.prems"(4,5) by (rule calc_potential_jj_inside)
    finally show ?thesis using True unfold "1.prems"(1) by simp
  next
    case False
    with "1.prems"(2) have le: "ii + 1 \<le> i" by simp
    have "Q (snd (calc_potential_ii ev nR R nz z npot args out (ii + 1) row' m') (out + i * nz + j))"
      using "1.IH" [OF lt row'_def "1.prems"(1) le "1.prems"(3,4,5)]
      unfolding m'_def row'_def by simp
    then show ?thesis using unfold by simp
  qed
qed

lemma eval_potential_ii_frame:
  "\<not> (out + ii \<le> a \<and> a < out + nR) \<Longrightarrow>
   eval_potential_ii ev nR R z npot args out ii m a = m a"
proof (induction ev nR R z npot args out ii m rule: eval_potential_ii.induct)
  case (1 ev nR R z npot args out ii m)
  show ?case
  proof (cases "ii < nR")
    case True
    from "1.prems" True have "\<not> (out + (ii + 1) \<le> a \<and> a < out + nR)" and "a \<noteq> out + ii"
      by auto
    with "1.IH" [OF True] True show ?thesis
      by (subst eval_potential_ii.simps) (simp add: fun_upd_def)
  next
    case False
    then show ?thesis by (subst eval_potential_ii.simps) simp
  qed
qed

lemma eval_potential_ii_cell:
  "ii \<le> i \<Longrightarrow> i < nR \<Longrightarrow>
   (\<And>k. ii \<le> k \<Longrightarrow> k < nR \<Longrightarrow> \<not> (out + ii \<le> R + k \<and> R + k < out + nR)) \<Longrightarrow>
   (\<And>k. ii \<le> k \<Longrightarrow> k < nR \<Longrightarrow> \<not> (out + ii \<le> z + k \<and> z + k < out + nR)) \<Longrightarrow>
   eval_potential_ii ev nR R z npot args out ii m (out + i) = ev (m (R + i)) (m (z + i)) npot args"
proof (induction ev nR R z npot args out ii m rule: eval_potential_ii.induct)
  case (1 ev nR R z npot args out ii m)
  from "1.prems" have lt: "ii < nR" by simp
  define m' where "m' = m(out + ii := ev (m (R + ii)) (m (z + ii)) npot args)"
  have unfold: "eval_potential_ii ev nR R z npot args out ii m =
                eval_potential_ii ev nR R z npot args out (ii + 1) m'"
    using lt by (subst eval_potential_ii.simps) (simp add: m'_def)
  show ?case
  proof (cases "i = ii")
    case True
    have "eval_potential_ii ev nR R z npot args out (ii + 1) m' (out + ii) = m' (out + ii)"
      by (rule eval_potential_ii_frame) simp
    then show ?thesis using True unfold by (simp add: m'_def)
  next
    case False
    with "1.prems"(1) have le: "ii + 1 \<le> i" by simp
    have sepR: "\<not> (out + (ii + 1) \<le> R + k \<and> R + k < out + nR)" if "ii + 1 \<le> k" "k < nR" for k
      using "1.prems"(3) [of k] that by auto
    have sepz: "\<not> (out + (ii + 1) \<le> z + k \<and> z + k < out + nR)" if "ii + 1 \<le> k" "k < nR" for k
      using "1.prems"(4) [of k] that by auto
    have "eval_potential_ii ev nR R z npot args out (ii + 1) m' (out + i) =
          ev (m' (R + i)) (m' (z + i)) npot args"
      using "1.IH" [OF lt le "1.prems"(2) sepR sepz] unfolding m'_def fun_upd_def by simp
    moreover have "m' (R + i) = m (R + i)"
      using "1.prems"(3) [of i] "1.prems"(1,2) by (auto simp: m'_def)
    moreover have "m' (z + i) = m (z + i)"
      using "1.prems"(4) [of i] "1.prems"(1,2) by (auto simp: m'_def)
    ultimately show ?thesis using unfold by simp
  qed
qed

section \<open>The entry points as a whole\<close>

text \<open>What an entry point leaves in the store is what its loop leaves.\<close>

lemma separate_cells:
  "separate a n b k \<Longrightarrow> 0 \<le> x \<Longrightarrow> x < k \<Longrightarrow> \<not> (a \<le> b + x \<and> b + x < a + n)"
  by (auto simp: separate_def)

lemma dmem_calc:
  "dmem (final (calc_potential parse ev nR R nz z npot pot_type pot_args out s)) =
   snd (calc_potential_ii ev nR R nz z npot (parsed_args parse npot pot_type pot_args (dmem s))
          out 0 (fresh s) (dmem s))"
  by (simp add: calc_potential_def final_def Let_def interp_2d_free_def gsl_interp_accel_free_def
      free_def split: list.splits option.splits)

lemma dmem_eval:
  "dmem (final (eval_potential parse ev nR R z npot pot_type pot_args out s)) =
   eval_potential_ii ev nR R z npot (parsed_args parse npot pot_type pot_args (dmem s))
     out 0 (dmem s)"
  by (simp add: eval_potential_def final_def Let_def interp_2d_free_def gsl_interp_accel_free_def
      free_def split: list.splits option.splits)

lemma parsed_args_length: "length (parsed_args parse npot pot_type pot_args m) = nat npot"
  by (simp add: parsed_args_def)

lemma parsed_args_Nil: "parsed_args parse npot pot_type pot_args m = [] \<longleftrightarrow> npot \<le> 0"
  using parsed_args_length [of parse npot pot_type pot_args m] by auto

lemma calc_potential_returns:
  assumes "1 \<le> npot"
  shows "calc_potential parse ev nR R nz z npot pot_type pot_args out s =
     Inr (final (calc_potential parse ev nR R nz z npot pot_type pot_args out s))"
proof (cases "parsed_args parse npot pot_type pot_args (dmem s)")
  case Nil
  with assms show ?thesis by (simp add: parsed_args_Nil)
next
  case (Cons a as)
  then show ?thesis by (simp add: calc_potential_def final_def Let_def)
qed

lemma eval_potential_returns:
  assumes "1 \<le> npot"
  shows "eval_potential parse ev nR R z npot pot_type pot_args out s =
     Inr (final (eval_potential parse ev nR R z npot pot_type pot_args out s))"
proof (cases "parsed_args parse npot pot_type pot_args (dmem s)")
  case Nil
  with assms show ?thesis by (simp add: parsed_args_Nil)
next
  case (Cons a as)
  then show ?thesis by (simp add: eval_potential_def final_def Let_def)
qed

lemma calc_potential_faults:
  "npot \<le> 0 \<Longrightarrow> calc_potential parse ev nR R nz z npot pot_type pot_args out s =
     Inl (OutOfBounds, final (calc_potential parse ev nR R nz z npot pot_type pot_args out s))"
  by (simp add: calc_potential_def final_def Let_def parsed_args_def)

lemma eval_potential_faults:
  "npot \<le> 0 \<Longrightarrow> eval_potential parse ev nR R z npot pot_type pot_args out s =
     Inl (OutOfBounds, final (eval_potential parse ev nR R z npot pot_type pot_args out s))"
  by (simp add: eval_potential_def final_def Let_def parsed_args_def)

lemma dmem_calc_outside:
  assumes "\<not> (out \<le> a \<and> a < out + nR * nz)"
  shows "dmem (final (calc_potential parse ev nR R nz z npot pot_type pot_args out s)) a = dmem s a"
proof (cases "0 < nz")
  case True
  from assms have "\<not> (out + 0 * nz \<le> a \<and> a < out + nR * nz)" by simp
  with True show ?thesis unfolding dmem_calc by (rule calc_potential_ii_frame)
next
  case False
  then have "nz \<le> 0" by simp
  then show ?thesis unfolding dmem_calc by (simp add: calc_potential_ii_no_columns)
qed

lemma dmem_eval_outside:
  assumes "\<not> (out \<le> a \<and> a < out + nR)"
  shows "dmem (final (eval_potential parse ev nR R z npot pot_type pot_args out s)) a = dmem s a"
proof -
  from assms have "\<not> (out + 0 \<le> a \<and> a < out + nR)" by simp
  then show ?thesis unfolding dmem_eval by (rule eval_potential_ii_frame)
qed

lemma dmem_eval_cell:
  assumes "separate out nR R nR" and "separate out nR z nR" and "0 \<le> i" and "i < nR"
  shows "dmem (final (eval_potential parse ev nR R z npot pot_type pot_args out s)) (out + i) =
         ev (dmem s (R + i)) (dmem s (z + i)) npot (parsed_args parse npot pot_type pot_args (dmem s))"
proof -
  have sR: "\<not> (out + 0 \<le> R + k \<and> R + k < out + nR)" if "0 \<le> k" "k < nR" for k
    using separate_cells [OF assms(1) that] by simp
  have sz: "\<not> (out + 0 \<le> z + k \<and> z + k < out + nR)" if "0 \<le> k" "k < nR" for k
    using separate_cells [OF assms(2) that] by simp
  show ?thesis unfolding dmem_eval using assms(3,4) sR sz by (rule eval_potential_ii_cell)
qed

lemma dmem_calc_cell:
  assumes "separate out (nR * nz) R nR" and "separate out (nR * nz) z nz"
    and "0 \<le> i" and "i < nR" and "0 \<le> j" and "j < nz"
  shows "dmem (final (calc_potential parse ev nR R nz z npot pot_type pot_args out s)) (out + (i * nz + j)) =
         ev (dmem s (R + i)) (dmem s (z + j)) npot (parsed_args parse npot pot_type pot_args (dmem s))"
proof -
  have sR: "\<not> (out + 0 * nz \<le> R + k \<and> R + k < out + nR * nz)" if "0 \<le> k" "k < nR" for k
    using separate_cells [OF assms(1) that] by simp
  have sz: "\<not> (out + 0 * nz \<le> z + k \<and> z + k < out + nR * nz)" if "0 \<le> k" "k < nz" for k
    using separate_cells [OF assms(2) that] by simp
  have "snd (calc_potential_ii ev nR R nz z npot (parsed_args parse npot pot_type pot_args (dmem s))
          out 0 (fresh s) (dmem s)) (out + i * nz + j) =
        ev (dmem s (R + i)) (dmem s (z + j)) npot (parsed_args parse npot pot_type pot_args (dmem s))"
    using assms(3,4,5,6) sR sz by (rule calc_potential_ii_cell)
  then show ?thesis
    unfolding dmem_calc by (simp only: add.assoc)
qed

lemma released_eval:
  "count_list (released (final (eval_potential parse ev nR R z npot pot_type pot_args out s))) (Free RowBlock) =
   count_list (released s) (Free RowBlock)"
  by (simp add: eval_potential_def final_def Let_def interp_2d_free_def gsl_interp_accel_free_def
      free_def split: list.splits option.splits)

lemma eval_single:
  "dmem (final (eval_potential parse ev 1 R z npot pot_type pot_args out s)) out =
   ev (dmem s R) (dmem s z) npot (parsed_args parse npot pot_type pot_args (dmem s))"
  unfolding dmem_eval
  by (subst eval_potential_ii.simps, simp, subst eval_potential_ii.simps, simp)

lemma cell_of_block:
  assumes "(0::int) < nz" and "out \<le> a" and "a < out + nR * nz"
  obtains i j where "0 \<le> i" "i < nR" "0 \<le> j" "j < nz" "a = out + (i * nz + j)"
proof -
  let ?d = "a - out"
  have d: "0 \<le> ?d" "?d < nR * nz" using assms by simp_all
  have 1: "0 \<le> ?d div nz" using d assms(1) by (simp add: pos_imp_zdiv_nonneg_iff)
  have 3: "0 \<le> ?d mod nz" "?d mod nz < nz" using assms(1) by simp_all
  have "?d div nz * nz + ?d mod nz = ?d" by simp
  with 3(1) have "?d div nz * nz \<le> ?d" by linarith
  with d(2) have "?d div nz * nz < nR * nz" by linarith
  with assms(1) have 2: "?d div nz < nR" by (simp add: mult_less_cancel_right)
  have 4: "a = out + (?d div nz * nz + ?d mod nz)" by simp
  from 1 2 3 4 show thesis by (rule that)
qed

lemma evaluatePotentials_zero:
  assumes "add zero zero = zero" and "\<forall>a\<in>set args. contribution R Z a = zero"
  shows "evaluatePotentials zero add contribution R Z npot args = zero"
proof -
  have "fold (\<lambda>a pot. add pot (contribution R Z a)) xs zero = zero"
    if "\<forall>a\<in>set xs. contribution R Z a = zero" for xs
    using that assms(1) by (induction xs) simp_all
  moreover have "\<forall>a\<in>set (take (nat npot) args). contribution R Z a = zero"
    using assms(2) by (auto dest: in_set_takeD)
  ultimately show ?thesis by (simp add: evaluatePotentials_def)
qed

lemma reads_only_parsed_args:
  assumes "reads_only parse npot pot_type n"
    and "\<forall>k. 0 \<le> k \<and> k < npot \<longrightarrow> pot_type' k = pot_type k"
    and "\<forall>j. 0 \<le> j \<and> j < n \<longrightarrow> m' (pot_args' + j) = m (pot_args + j)"
  shows "parsed_args parse npot pot_type' pot_args' m' = parsed_args parse npot pot_type pot_args m"
proof -
  define args where "args = (\<lambda>j. m (pot_args + j))"
  define args' where "args' = (\<lambda>j. m' (pot_args' + j))"
  have a: "\<forall>j. 0 \<le> j \<and> j < n \<longrightarrow> args' j = args j"
    using assms(3) by (simp add: args_def args'_def)
  have "\<forall>pot_type' args args'.
          (\<forall>k. 0 \<le> k \<and> k < npot \<longrightarrow> pot_type' k = pot_type k) \<longrightarrow>
          (\<forall>j. 0 \<le> j \<and> j < n \<longrightarrow> args' j = args j) \<longrightarrow>
          (\<forall>k. k < nat npot \<longrightarrow> parse npot pot_type' args' k = parse npot pot_type args k)"
    using assms(1) by (simp only: reads_only_def)
  then have "(\<forall>k. 0 \<le> k \<and> k < npot \<longrightarrow> pot_type' k = pot_type k) \<longrightarrow>
          (\<forall>j. 0 \<le> j \<and> j < n \<longrightarrow> args' j = args j) \<longrightarrow>
          (\<forall>k. k < nat npot \<longrightarrow> parse npot pot_type' args' k = parse npot pot_type args k)"
    by (elim allE)
  with assms(2) a have "\<forall>k. k < nat npot \<longrightarrow> parse npot pot_type' args' k = parse npot pot_type args k"
    by (elim impE) assumption+
  then show ?thesis by (simp add: parsed_args_def args_def args'_def)
qed


lemma sample_parse_reads_only:
  "reads_only sample_parse 1 (\<lambda>k. 0) 1"
  unfolding reads_only_def
proof (intro allI impI)
  fix pot_type' :: "int \<Rightarrow> int" and args args' :: "int \<Rightarrow> int" and k :: nat
  assume t: "\<forall>k. 0 \<le> k \<and> k < 1 \<longrightarrow> pot_type' k = 0"
    and a: "\<forall>j. 0 \<le> j \<and> j < 1 \<longrightarrow> args' j = args j" and k: "k < nat 1"
  from k have "k = 0" by simp
  with t a show "sample_parse 1 pot_type' args' k = sample_parse 1 (\<lambda>k. 0) args k"
    by (simp add: sample_parse_def)
qed

lemma parsed_args_after_calc:
  assumes "reads_only parse npot pot_type n" and "separate out (nR * nz) pot_args n"
    and "dmem s1 = dmem (final (calc_potential parse ev nR R nz z npot pot_type pot_args out s))"
  shows "parsed_args parse npot pot_type pot_args (dmem s1) = parsed_args parse npot pot_type pot_args (dmem s)"
proof -
  have "dmem s1 (pot_args + j) = dmem s (pot_args + j)" if "0 \<le> j" "j < n" for j
    unfolding assms(3) using separate_cells [OF assms(2) that] by (rule dmem_calc_outside)
  then show ?thesis using assms(1) by (intro reads_only_parsed_args [where n = n]) simp_all
qed

lemma parsed_args_after_eval:
  assumes "reads_only parse npot pot_type n" and "separate out nR pot_args n"
    and "dmem s1 = dmem (final (eval_potential parse ev nR R z npot pot_type pot_args out s))"
  shows "parsed_args parse npot pot_type pot_args (dmem s1) = parsed_args parse npot pot_type pot_args (dmem s)"
proof -
  have "dmem s1 (pot_args + j) = dmem s (pot_args + j)" if "0 \<le> j" "j < n" for j
    unfolding assms(3) using separate_cells [OF assms(2) that] by (rule dmem_eval_outside)
  then show ?thesis using assms(1) by (intro reads_only_parsed_args [where n = n]) simp_all
qed

lemma calc_potential_again:
  assumes "separate out (nR * nz) R nR" and "separate out (nR * nz) z nz"
    and "parsed_args parse npot pot_type pot_args (dmem s1) = parsed_args parse npot pot_type pot_args (dmem s)"
    and "dmem s1 = dmem (final (calc_potential parse ev nR R nz z npot pot_type pot_args out s))"
  shows "dmem (final (calc_potential parse ev nR R nz z npot pot_type pot_args out s1)) = dmem s1"
proof (rule ext)
  fix a
  show "dmem (final (calc_potential parse ev nR R nz z npot pot_type pot_args out s1)) a = dmem s1 a"
  proof (cases "0 < nz \<and> out \<le> a \<and> a < out + nR * nz")
    case True
    then obtain i j where ij: "0 \<le> i" "i < nR" "0 \<le> j" "j < nz" "a = out + (i * nz + j)"
      by (auto elim: cell_of_block)
    have "\<not> (out \<le> R + i \<and> R + i < out + nR * nz)"
      using separate_cells [OF assms(1) ij(1,2)] .
    then have Ri: "dmem s1 (R + i) = dmem s (R + i)"
      unfolding assms(4) by (rule dmem_calc_outside)
    have "\<not> (out \<le> z + j \<and> z + j < out + nR * nz)"
      using separate_cells [OF assms(2) ij(3,4)] .
    then have zj: "dmem s1 (z + j) = dmem s (z + j)"
      unfolding assms(4) by (rule dmem_calc_outside)
    have "dmem (final (calc_potential parse ev nR R nz z npot pot_type pot_args out s1)) a =
          ev (dmem s1 (R + i)) (dmem s1 (z + j)) npot (parsed_args parse npot pot_type pot_args (dmem s1))"
      unfolding ij(5) using assms(1,2) ij(1-4) by (rule dmem_calc_cell)
    also have "\<dots> = ev (dmem s (R + i)) (dmem s (z + j)) npot (parsed_args parse npot pot_type pot_args (dmem s))"
      by (simp only: Ri zj assms(3))
    also have "\<dots> = dmem (final (calc_potential parse ev nR R nz z npot pot_type pot_args out s)) a"
      unfolding ij(5) using assms(1,2) ij(1-4) by (rule dmem_calc_cell [symmetric])
    finally show ?thesis by (simp only: assms(4))
  next
    case False
    then have out: "\<not> (out \<le> a \<and> a < out + nR * nz) \<or> nz \<le> 0" by auto
    then show ?thesis
    proof
      assume "\<not> (out \<le> a \<and> a < out + nR * nz)"
      then show ?thesis by (simp add: dmem_calc_outside)
    next
      assume "nz \<le> 0"
      then show ?thesis unfolding assms(4) dmem_calc by (simp add: calc_potential_ii_no_columns)
    qed
  qed
qed


lemma eval_potential_again:
  assumes "separate out nR R nR" and "separate out nR z nR"
    and "parsed_args parse npot pot_type pot_args (dmem s1) = parsed_args parse npot pot_type pot_args (dmem s)"
    and "dmem s1 = dmem (final (eval_potential parse ev nR R z npot pot_type pot_args out s))"
  shows "dmem (final (eval_potential parse ev nR R z npot pot_type pot_args out s1)) = dmem s1"
proof (rule ext)
  fix a
  show "dmem (final (eval_potential parse ev nR R z npot pot_type pot_args out s1)) a = dmem s1 a"
  proof (cases "out \<le> a \<and> a < out + nR")
    case True
    define i where "i = a - out"
    from True have i: "0 \<le> i" "i < nR" "a = out + i" by (simp_all add: i_def)
    have "\<not> (out \<le> R + i \<and> R + i < out + nR)"
      using separate_cells [OF assms(1) i(1,2)] .
    then have Ri: "dmem s1 (R + i) = dmem s (R + i)"
      unfolding assms(4) by (rule dmem_eval_outside)
    have "\<not> (out \<le> z + i \<and> z + i < out + nR)"
      using separate_cells [OF assms(2) i(1,2)] .
    then have zi: "dmem s1 (z + i) = dmem s (z + i)"
      unfolding assms(4) by (rule dmem_eval_outside)
    have "dmem (final (eval_potential parse ev nR R z npot pot_type pot_args out s1)) a =
          ev (dmem s1 (R + i)) (dmem s1 (z + i)) npot (parsed_args parse npot pot_type pot_args (dmem s1))"
      unfolding i(3) using assms(1,2) i(1,2) by (rule dmem_eval_cell)
    also have "\<dots> = ev (dmem s (R + i)) (dmem s (z + i)) npot (parsed_args parse npot pot_type pot_args (dmem s))"
      by (simp only: Ri zi assms(3))
    also have "\<dots> = dmem (final (eval_potential parse ev nR R z npot pot_type pot_args out s)) a"
      unfolding i(3) using assms(1,2) i(1,2) by (rule dmem_eval_cell [symmetric])
    finally show ?thesis by (simp only: assms(4))
  next
    case False
    then show ?thesis by (simp add: dmem_eval_outside)
  qed
qed

section \<open>The claims\<close>

text \<open>
  Claim C1, as amended. Neither entry point writes \<^verbatim>\<open>*err\<close>: in the state either of them
  leaves, \<^verbatim>\<open>*err\<close> holds what it held before the call, whatever the type codes, the
  coordinates and the result of the call.
\<close>

theorem err_is_never_written:
  "err (final (calc_potential parse ev nR R nz z npot pot_type pot_args out s)) = err s \<and>
   err (final (eval_potential parse ev nR R z npot pot_type pot_args out s)) = err s"
  by (simp add: calc_potential_def eval_potential_def final_def Let_def interp_2d_free_def
      gsl_interp_accel_free_def free_def split: list.splits option.splits)

text \<open>
  Claim C1 as stated fails. The sample parser does not recognize the type code \<open>-1\<close>;
  both entry points return from a call with that code, and \<^verbatim>\<open>*err\<close>, 0 before the call, is
  still 0. A call that succeeds with \<^verbatim>\<open>*err = 5\<close> before it returns with \<^verbatim>\<open>*err = 5\<close>.
\<close>

theorem unrecognized_type_code_err_stays_zero:
  "err sample_state = 0 \<and>
   \<not> isl (calc_potential sample_parse sample_eval 2 10 3 20 1 (\<lambda>k. - 1) 30 100 sample_state) \<and>
   err (final (calc_potential sample_parse sample_eval 2 10 3 20 1 (\<lambda>k. - 1) 30 100 sample_state)) = 0 \<and>
   \<not> isl (eval_potential sample_parse sample_eval 2 10 20 1 (\<lambda>k. - 1) 30 100 sample_state) \<and>
   err (final (eval_potential sample_parse sample_eval 2 10 20 1 (\<lambda>k. - 1) 30 100 sample_state)) = 0 \<and>
   \<not> isl (calc_potential sample_parse sample_eval 2 10 3 20 1 (\<lambda>k. 0) 30 100 (sample_state\<lparr>err := 5\<rparr>)) \<and>
   err (final (calc_potential sample_parse sample_eval 2 10 3 20 1 (\<lambda>k. 0) 30 100 (sample_state\<lparr>err := 5\<rparr>))) = 5"
  by (simp add: calc_potential_def eval_potential_def final_def Let_def parsed_args_def
      sample_parse_def sample_state_def interp_2d_free_def gsl_interp_accel_free_def free_def
      upt_conv_Cons)

text \<open>
  Claim C2. The code does not do what the claim says. With two components backed by
  interpolation tables the parsed array holds entry 0, owning the handles 0 and 1, and
  entry 1, owning the handles 2 and 3. Either entry point releases the table and the
  accelerator of entry 0 and then the array (and the scratch row); the handles of
  entry 1 are never released.
\<close>

theorem only_entry_0_is_released:
  "parsed_args sample_parse 2 (\<lambda>k. 13) 30 (dmem sample_state) =
     [\<lparr>i2d = Some 0, acc = Some 1, params = 30\<rparr>, \<lparr>i2d = Some 2, acc = Some 3, params = 31\<rparr>] \<and>
   released (final (calc_potential sample_parse sample_eval 2 10 3 20 2 (\<lambda>k. 13) 30 100 sample_state)) =
     [Interp2dFree 0, AccelFree 1, Free ArgsBlock, Free RowBlock] \<and>
   released (final (eval_potential sample_parse sample_eval 2 10 20 2 (\<lambda>k. 13) 30 100 sample_state)) =
     [Interp2dFree 0, AccelFree 1, Free ArgsBlock]"
  by (simp add: calc_potential_def eval_potential_def final_def Let_def parsed_args_def
      sample_parse_def sample_state_def interp_2d_free_def gsl_interp_accel_free_def free_def
      upt_conv_Cons)

text \<open>
  Claim C3. Whenever the output block of \<open>nR * nz\<close> cells is separate from the \<open>nR\<close>
  cells of \<open>R\<close> and from the \<open>nz\<close> cells of \<open>z\<close>, \<^verbatim>\<open>calc_potential\<close> leaves in cell
  \<open>i * nz + j\<close> of \<open>out\<close>, for \<open>0 \<le> i < nR\<close> and \<open>0 \<le> j < nz\<close>, the value of the evaluator at
  \<open>(R[i], z[j])\<close> on the parsed entry list: the grid is stored in row-major order.
\<close>

theorem calc_potential_row_major:
  assumes "separate out (nR * nz) R nR" and "separate out (nR * nz) z nz"
    and "0 \<le> i" and "i < nR" and "0 \<le> j" and "j < nz"
  shows "dmem (final (calc_potential parse ev nR R nz z npot pot_type pot_args out s)) (out + (i * nz + j)) =
         ev (dmem s (R + i)) (dmem s (z + j)) npot (parsed_args parse npot pot_type pot_args (dmem s))"
  using assms by (rule dmem_calc_cell)

text \<open>
  With \<open>nR = 2\<close> and \<open>nz = 3\<close> the six cells hold the values at \<open>(R0,z0)\<close>, \<open>(R0,z1)\<close>,
  \<open>(R0,z2)\<close>, \<open>(R1,z0)\<close>, \<open>(R1,z1)\<close>, \<open>(R1,z2)\<close>, in this order.
\<close>

theorem calc_potential_row_major_witness:
  "separate 100 (2 * 3) 10 2 \<and> separate 100 (2 * 3) 20 3 \<and>
   map (dmem (final (calc_potential sample_parse sample_eval 2 10 3 20 1 (\<lambda>k. 0) 30 100 sample_state)))
     [100 + (0 * 3 + 0), 100 + (0 * 3 + 1), 100 + (0 * 3 + 2),
      100 + (1 * 3 + 0), 100 + (1 * 3 + 1), 100 + (1 * 3 + 2)] =
   [30 * (100 * 10 + 20), 30 * (100 * 10 + 21), 30 * (100 * 10 + 22),
    30 * (100 * 11 + 20), 30 * (100 * 11 + 21), 30 * (100 * 11 + 22)]"
proof -
  have a: "separate 100 (2 * 3) 10 2" and b: "separate 100 (2 * 3) 20 3"
    by (simp_all add: separate_def)
  note cell = calc_potential_row_major [OF a b, where parse = sample_parse and ev = sample_eval
      and npot = 1 and pot_type = "\<lambda>k. 0" and pot_args = 30 and s = sample_state]
  show ?thesis
    using a b cell [of 0 0] cell [of 0 1] cell [of 0 2] cell [of 1 0] cell [of 1 1] cell [of 1 2]
    by (simp add: sample_state_def sample_eval_def evaluatePotentials_def parsed_args_def
        sample_parse_def sample_contribution_def)
qed

text \<open>
  Claim C4. Whenever the output block of \<open>nR\<close> cells is separate from the \<open>nR\<close> cells of
  \<open>R\<close> and of \<open>z\<close>, \<^verbatim>\<open>eval_potential\<close> leaves in cell \<open>i\<close> of \<open>out\<close>, for \<open>0 \<le> i < nR\<close>, the
  value of the evaluator at \<open>(R[i], z[i])\<close> on the parsed entry list. It has no scratch
  row: the call releases none.
\<close>

theorem eval_potential_pairwise:
  assumes "separate out nR R nR" and "separate out nR z nR" and "0 \<le> i" and "i < nR"
  shows "dmem (final (eval_potential parse ev nR R z npot pot_type pot_args out s)) (out + i) =
           ev (dmem s (R + i)) (dmem s (z + i)) npot (parsed_args parse npot pot_type pot_args (dmem s)) \<and>
         count_list (released (final (eval_potential parse ev nR R z npot pot_type pot_args out s))) (Free RowBlock) =
           count_list (released s) (Free RowBlock)"
  using dmem_eval_cell [OF assms] released_eval by blast

theorem eval_potential_pairwise_witness:
  "separate 100 3 10 3 \<and> separate 100 3 20 3 \<and>
   dmem (final (eval_potential sample_parse sample_eval 3 10 20 1 (\<lambda>k. 0) 30 100 sample_state)) (100 + 2) =
     30 * (100 * 12 + 22) \<and>
   count_list (released (final (eval_potential sample_parse sample_eval 3 10 20 1 (\<lambda>k. 0) 30 100 sample_state)))
     (Free RowBlock) = 0"
proof -
  have a: "separate 100 3 10 3" and b: "separate 100 3 20 3"
    by (simp_all add: separate_def)
  show ?thesis
    using a b eval_potential_pairwise [OF a b, where i = 2 and parse = sample_parse and ev = sample_eval
        and npot = 1 and pot_type = "\<lambda>k. 0" and pot_args = 30 and s = sample_state]
    by (simp add: sample_state_def sample_eval_def evaluatePotentials_def parsed_args_def
        sample_parse_def sample_contribution_def)
qed

text \<open>
  Claim C5. The value \<^verbatim>\<open>calc_potential\<close> leaves in cell \<open>i * nz + j\<close> of its output is the
  value \<^verbatim>\<open>eval_potential\<close> leaves in its one output cell when it is called with
  \<open>nR = 1\<close> on a pair of cells holding \<open>R[i]\<close> and \<open>z[j]\<close> and the parser builds the same
  entry list for both calls. The grid's output block is separate from its \<open>R\<close> and \<open>z\<close>.
\<close>

theorem calc_potential_agrees_with_eval_potential:
  assumes "separate out (nR * nz) R nR" and "separate out (nR * nz) z nz"
    and "0 \<le> i" and "i < nR" and "0 \<le> j" and "j < nz"
    and "dmem t R1 = dmem s (R + i)" and "dmem t z1 = dmem s (z + j)"
    and "parsed_args parse npot pot_type pot_args1 (dmem t) = parsed_args parse npot pot_type pot_args (dmem s)"
  shows "dmem (final (calc_potential parse ev nR R nz z npot pot_type pot_args out s)) (out + (i * nz + j)) =
         dmem (final (eval_potential parse ev 1 R1 z1 npot pot_type pot_args1 out1 t)) out1"
  using dmem_calc_cell [OF assms(1-6)] assms(7-9) by (simp add: eval_single)

theorem calc_potential_agrees_with_eval_potential_witness:
  "separate 100 (2 * 3) 10 2 \<and> separate 100 (2 * 3) 20 3 \<and>
   dmem (final (calc_potential sample_parse sample_eval 2 10 3 20 2 (\<lambda>k. 0) 30 100 sample_state))
     (100 + (1 * 3 + 2)) =
   dmem (final (eval_potential sample_parse sample_eval 1 11 22 2 (\<lambda>k. 0) 30 200 sample_state)) 200"
proof -
  have a: "separate 100 (2 * 3) 10 2" and b: "separate 100 (2 * 3) 20 3"
    by (simp_all add: separate_def)
  have c: "dmem sample_state 11 = dmem sample_state (10 + 1)"
    and d: "dmem sample_state 22 = dmem sample_state (20 + 2)"
    by (simp_all add: sample_state_def)
  show ?thesis
    using a b calc_potential_agrees_with_eval_potential [OF a b _ _ _ _ c d refl,
        where ev = sample_eval and ?out1.0 = 200 and parse = sample_parse
          and npot = 2 and pot_type = "\<lambda>k. 0" and pot_args = 30]
    by simp
qed

text \<open>
  Claim C6. When an entry point has returned and is called again with the same
  arguments, in the state the first call left (the scratch row may come with other
  contents), the second call returns too and leaves the store as the first call left
  it: nothing the first call changed makes the second write anything else. The output
  block is separate from the cells of \<open>R\<close> and \<open>z\<close> and from the \<open>n\<close> parameter cells the
  parser reads.
\<close>

theorem second_call_writes_the_same:
  "(calc_potential parse ev nR R nz z npot pot_type pot_args out s = Inr s1 \<longrightarrow>
    separate out (nR * nz) R nR \<longrightarrow> separate out (nR * nz) z nz \<longrightarrow>
    reads_only parse npot pot_type n \<longrightarrow> separate out (nR * nz) pot_args n \<longrightarrow>
    (\<exists>s2. calc_potential parse ev nR R nz z npot pot_type pot_args out (s1\<lparr>fresh := f\<rparr>) = Inr s2 \<and>
          dmem s2 = dmem s1)) \<and>
   (eval_potential parse ev nR R z npot pot_type pot_args out s = Inr t1 \<longrightarrow>
    separate out nR R nR \<longrightarrow> separate out nR z nR \<longrightarrow>
    reads_only parse npot pot_type n \<longrightarrow> separate out nR pot_args n \<longrightarrow>
    (\<exists>t2. eval_potential parse ev nR R z npot pot_type pot_args out t1 = Inr t2 \<and> dmem t2 = dmem t1))"
proof (intro conjI impI)
  assume first: "calc_potential parse ev nR R nz z npot pot_type pot_args out s = Inr s1"
    and sep: "separate out (nR * nz) R nR" "separate out (nR * nz) z nz"
    and reads: "reads_only parse npot pot_type n" "separate out (nR * nz) pot_args n"
  have npot: "1 \<le> npot"
  proof (rule ccontr)
    assume "\<not> 1 \<le> npot"
    then have "npot \<le> 0" by simp
    then have "calc_potential parse ev nR R nz z npot pot_type pot_args out s =
        Inl (OutOfBounds, final (calc_potential parse ev nR R nz z npot pot_type pot_args out s))"
      by (rule calc_potential_faults)
    with first show False by simp
  qed
  let ?s = "s1\<lparr>fresh := f\<rparr>"
  have d: "dmem ?s = dmem (final (calc_potential parse ev nR R nz z npot pot_type pot_args out s))"
    using first by (simp add: final_def)
  have "parsed_args parse npot pot_type pot_args (dmem ?s) = parsed_args parse npot pot_type pot_args (dmem s)"
    using reads d by (rule parsed_args_after_calc)
  with sep have "dmem (final (calc_potential parse ev nR R nz z npot pot_type pot_args out ?s)) = dmem ?s"
    using d by (rule calc_potential_again)
  then have "dmem (final (calc_potential parse ev nR R nz z npot pot_type pot_args out ?s)) = dmem s1"
    by simp
  moreover have "calc_potential parse ev nR R nz z npot pot_type pot_args out ?s =
      Inr (final (calc_potential parse ev nR R nz z npot pot_type pot_args out ?s))"
    using npot by (rule calc_potential_returns)
  ultimately show "\<exists>s2. calc_potential parse ev nR R nz z npot pot_type pot_args out ?s = Inr s2 \<and> dmem s2 = dmem s1"
    by blast
next
  assume first: "eval_potential parse ev nR R z npot pot_type pot_args out s = Inr t1"
    and sep: "separate out nR R nR" "separate out nR z nR"
    and reads: "reads_only parse npot pot_type n" "separate out nR pot_args n"
  have npot: "1 \<le> npot"
  proof (rule ccontr)
    assume "\<not> 1 \<le> npot"
    then have "npot \<le> 0" by simp
    then have "eval_potential parse ev nR R z npot pot_type pot_args out s =
        Inl (OutOfBounds, final (eval_potential parse ev nR R z npot pot_type pot_args out s))"
      by (rule eval_potential_faults)
    with first show False by simp
  qed
  have d: "dmem t1 = dmem (final (eval_potential parse ev nR R z npot pot_type pot_args out s))"
    using first by (simp add: final_def)
  have "parsed_args parse npot pot_type pot_args (dmem t1) = parsed_args parse npot pot_type pot_args (dmem s)"
    using reads d by (rule parsed_args_after_eval)
  with sep have "dmem (final (eval_potential parse ev nR R z npot pot_type pot_args out t1)) = dmem t1"
    using d by (rule eval_potential_again)
  moreover have "eval_potential parse ev nR R z npot pot_type pot_args out t1 =
      Inr (final (eval_potential parse ev nR R z npot pot_type pot_args out t1))"
    using npot by (rule eval_potential_returns)
  ultimately show "\<exists>t2. eval_potential parse ev nR R z npot pot_type pot_args out t1 = Inr t2 \<and> dmem t2 = dmem t1"
    by blast
qed

theorem second_call_writes_the_same_witness:
  "(\<exists>s2. calc_potential sample_parse sample_eval 2 10 3 20 1 (\<lambda>k. 0) 30 100
           ((final (calc_potential sample_parse sample_eval 2 10 3 20 1 (\<lambda>k. 0) 30 100 sample_state))
              \<lparr>fresh := (\<lambda>a. 7)\<rparr>) = Inr s2 \<and>
         dmem s2 = dmem (final (calc_potential sample_parse sample_eval 2 10 3 20 1 (\<lambda>k. 0) 30 100 sample_state))) \<and>
   (\<exists>t2. eval_potential sample_parse sample_eval 3 10 20 1 (\<lambda>k. 0) 30 100
           (final (eval_potential sample_parse sample_eval 3 10 20 1 (\<lambda>k. 0) 30 100 sample_state)) = Inr t2 \<and>
         dmem t2 = dmem (final (eval_potential sample_parse sample_eval 3 10 20 1 (\<lambda>k. 0) 30 100 sample_state)))"
proof -
  let ?c = "calc_potential sample_parse sample_eval 2 10 3 20 1 (\<lambda>k. 0) 30 100 sample_state"
  let ?e = "eval_potential sample_parse sample_eval 3 10 20 1 (\<lambda>k. 0) 30 100 sample_state"
  have c: "?c = Inr (final ?c)" by (rule calc_potential_returns) simp
  have e: "?e = Inr (final ?e)" by (rule eval_potential_returns) simp
  have sep: "separate 100 (2 * 3) 10 2" "separate 100 (2 * 3) 20 3" "separate 100 3 10 3" "separate 100 3 20 3"
    "separate 100 (2 * 3) 30 1" "separate 100 3 30 1"
    by (simp_all add: separate_def)
  note r = sample_parse_reads_only
  show ?thesis
    using second_call_writes_the_same [where parse = sample_parse and ev = sample_eval and nR = 2
        and R = 10 and nz = 3 and z = 20 and npot = 1 and pot_type = "\<lambda>k. 0" and pot_args = 30
        and out = 100 and s = sample_state and ?s1.0 = "final ?c" and f = "\<lambda>a. 7" and n = 1]
      second_call_writes_the_same [where parse = sample_parse and ev = sample_eval and nR = 3
        and R = 10 and z = 20 and npot = 1 and pot_type = "\<lambda>k. 0" and pot_args = 30
        and out = 100 and s = sample_state and ?t1.0 = "final ?e" and n = 1]
      c e sep r
    by blast
qed

text \<open>
  Claim C7. With the Composite Evaluator of the spec, a sum of contributions: when every
  component of the parsed list contributes \<open>zero\<close> at every coordinate (and
  \<open>zero + zero = zero\<close>), \<^verbatim>\<open>calc_potential\<close> leaves \<open>zero\<close> in every cell \<open>i * nz + j\<close> of
  the grid, whatever the arrays \<open>R\<close> and \<open>z\<close> hold.
\<close>

theorem zero_components_zero_grid:
  assumes "add zero zero = zero"
    and "\<forall>a\<in>set (parsed_args parse npot pot_type pot_args (dmem s)). \<forall>x y. contribution x y a = zero"
    and "0 \<le> i" and "i < nR" and "0 \<le> j" and "j < nz"
  shows "dmem (final (calc_potential parse (evaluatePotentials zero add contribution)
                 nR R nz z npot pot_type pot_args out s)) (out + (i * nz + j)) = zero"
proof -
  let ?args = "parsed_args parse npot pot_type pot_args (dmem s)"
  have "evaluatePotentials zero add contribution x y npot ?args = zero" for x y
    using assms(1,2) by (intro evaluatePotentials_zero) simp_all
  then have "snd (calc_potential_ii (evaluatePotentials zero add contribution) nR R nz z npot ?args
          out 0 (fresh s) (dmem s)) (out + i * nz + j) = zero"
    using assms(3-6) by (rule calc_potential_ii_every)
  then show ?thesis unfolding dmem_calc by (simp only: add.assoc)
qed

theorem zero_components_zero_grid_witness:
  "(0::int) + 0 = 0 \<and>
   dmem (final (calc_potential sample_parse (evaluatePotentials 0 (+) sample_contribution)
     2 10 3 20 2 (\<lambda>k. 0) 30 100 (sample_state\<lparr>dmem := (\<lambda>a. if 30 \<le> a \<and> a < 32 then 0 else a)\<rparr>)))
     (100 + (1 * 3 + 2)) = 0"
proof -
  have a: "(0::int) + 0 = 0" by simp
  have b: "\<forall>a\<in>set (parsed_args sample_parse 2 (\<lambda>k. 0) 30
             (dmem (sample_state\<lparr>dmem := (\<lambda>a. if 30 \<le> a \<and> a < 32 then 0 else a)\<rparr>))).
           \<forall>x y. sample_contribution x y a = 0"
    by (simp add: parsed_args_def sample_parse_def sample_contribution_def upt_conv_Cons)
  show ?thesis
    using a zero_components_zero_grid [where add = "(+)" and zero = "0::int"
        and contribution = sample_contribution and parse = sample_parse and npot = 2
        and pot_type = "\<lambda>k. 0" and pot_args = 30
        and s = "sample_state\<lparr>dmem := (\<lambda>a. if 30 \<le> a \<and> a < 32 then 0 else a)\<rparr>"
        and i = 1 and nR = 2 and j = 2 and nz = 3 and R = 10 and z = 20 and out = 100, OF a b]
    by simp
qed

text \<open>
  Claim C8. \<^verbatim>\<open>calc_potential\<close> changes no cell of the store outside the \<open>nR * nz\<close> cells
  from \<open>out\<close>, and \<^verbatim>\<open>eval_potential\<close> none outside the \<open>nR\<close> cells from \<open>out\<close>: every cell
  of \<open>R\<close>, \<open>z\<close> and \<open>pot_args\<close> that lies outside the output block keeps its value. The type
  codes are not in the store of doubles; no entry point writes an \<^verbatim>\<open>int\<close>.
\<close>

theorem writes_stay_in_output_block:
  "(\<not> (out \<le> a \<and> a < out + nR * nz) \<longrightarrow>
      dmem (final (calc_potential parse ev nR R nz z npot pot_type pot_args out s)) a = dmem s a) \<and>
   (\<not> (out \<le> a \<and> a < out + nR) \<longrightarrow>
      dmem (final (eval_potential parse ev nR R z npot pot_type pot_args out s)) a = dmem s a)"
  by (simp add: dmem_calc_outside dmem_eval_outside)

theorem writes_stay_in_output_block_witness:
  "\<not> (100 \<le> (106::int) \<and> (106::int) < 100 + 2 * 3) \<and>
   dmem (final (calc_potential sample_parse sample_eval 2 10 3 20 1 (\<lambda>k. 0) 30 100 sample_state)) 106 = 106 \<and>
   \<not> (100 \<le> (11::int) \<and> (11::int) < 100 + 2) \<and>
   dmem (final (eval_potential sample_parse sample_eval 2 10 20 1 (\<lambda>k. 0) 30 100 sample_state)) 11 = 11"
  using writes_stay_in_output_block [where out = 100 and a = 106 and nR = 2 and nz = 3
      and parse = sample_parse and ev = sample_eval and R = 10 and z = 20 and npot = 1
      and pot_type = "\<lambda>k. 0" and pot_args = 30 and s = sample_state]
    writes_stay_in_output_block [where out = 100 and a = 11 and nR = 2 and nz = 3
      and parse = sample_parse and ev = sample_eval and R = 10 and z = 20 and npot = 1
      and pot_type = "\<lambda>k. 0" and pot_args = 30 and s = sample_state]
  by (simp add: sample_state_def)

text \<open>
  Claim C9. Either entry point reads entry 0 of the entry array after its loop. The read
  is inside the array, and the entry point returns, exactly when \<open>1 \<le> npot\<close>; it is out
  of bounds exactly when \<open>npot \<le> 0\<close>.
\<close>

theorem first_entry_read_in_bounds_iff:
  "((\<exists>s'. calc_potential parse ev nR R nz z npot pot_type pot_args out s = Inr s') \<longleftrightarrow> 1 \<le> npot) \<and>
   ((\<exists>s'. eval_potential parse ev nR R z npot pot_type pot_args out s = Inr s') \<longleftrightarrow> 1 \<le> npot) \<and>
   ((\<exists>s'. calc_potential parse ev nR R nz z npot pot_type pot_args out s = Inl (OutOfBounds, s')) \<longleftrightarrow> npot \<le> 0) \<and>
   ((\<exists>s'. eval_potential parse ev nR R z npot pot_type pot_args out s = Inl (OutOfBounds, s')) \<longleftrightarrow> npot \<le> 0)"
proof (cases "1 \<le> npot")
  case True
  obtain c where "calc_potential parse ev nR R nz z npot pot_type pot_args out s = Inr c"
    using calc_potential_returns [OF True] by blast
  moreover obtain e where "eval_potential parse ev nR R z npot pot_type pot_args out s = Inr e"
    using eval_potential_returns [OF True] by blast
  ultimately show ?thesis using True by simp
next
  case False
  then have le: "npot \<le> 0" by simp
  obtain c where "calc_potential parse ev nR R nz z npot pot_type pot_args out s = Inl (OutOfBounds, c)"
    using calc_potential_faults [OF le] by blast
  moreover obtain e where "eval_potential parse ev nR R z npot pot_type pot_args out s = Inl (OutOfBounds, e)"
    using eval_potential_faults [OF le] by blast
  ultimately show ?thesis using False le by simp
qed

theorem first_entry_read_in_bounds_iff_witness:
  "(\<exists>s'. calc_potential sample_parse sample_eval 2 10 3 20 1 (\<lambda>k. 0) 30 100 sample_state = Inr s') \<and>
   (\<exists>s'. eval_potential sample_parse sample_eval 2 10 20 1 (\<lambda>k. 0) 30 100 sample_state = Inr s') \<and>
   (\<exists>s'. calc_potential sample_parse sample_eval 2 10 3 20 0 (\<lambda>k. 0) 30 100 sample_state = Inl (OutOfBounds, s')) \<and>
   (\<exists>s'. eval_potential sample_parse sample_eval 2 10 20 0 (\<lambda>k. 0) 30 100 sample_state = Inl (OutOfBounds, s'))"
  using first_entry_read_in_bounds_iff [where npot = 1 and parse = sample_parse and ev = sample_eval
      and nR = 2 and R = 10 and nz = 3 and z = 20 and pot_type = "\<lambda>k. 0" and pot_args = 30
      and out = 100 and s = sample_state]
    first_entry_read_in_bounds_iff [where npot = 0 and parse = sample_parse and ev = sample_eval
      and nR = 2 and R = 10 and nz = 3 and z = 20 and pot_type = "\<lambda>k. 0" and pot_args = 30
      and out = 100 and s = sample_state]
  by simp

text \<open>
  Claim C10. Take two calls of an entry point with the same counts, made in any two
  states with any addresses, that agree on the first \<open>npot\<close> type codes, on the \<open>n\<close>
  parameter cells the \<open>npot\<close> descriptors consume, on the \<open>nR\<close> cells of \<open>R\<close> and on the \<open>nz\<close>
  cells of \<open>z\<close> (for \<^verbatim>\<open>eval_potential\<close>, the \<open>nR\<close> cells of both). They leave the same
  values in the cells of their output blocks, whatever else the two states hold. Each
  output block is separate from the coordinates read in its call.
\<close>

theorem output_depends_on_declared_inputs_only:
  "(reads_only parse npot pot_type n \<longrightarrow>
    (\<forall>k. 0 \<le> k \<and> k < npot \<longrightarrow> pot_type' k = pot_type k) \<longrightarrow>
    (\<forall>k. 0 \<le> k \<and> k < n \<longrightarrow> dmem t (pot_args' + k) = dmem s (pot_args + k)) \<longrightarrow>
    (\<forall>k. 0 \<le> k \<and> k < nR \<longrightarrow> dmem t (R' + k) = dmem s (R + k)) \<longrightarrow>
    (\<forall>k. 0 \<le> k \<and> k < nz \<longrightarrow> dmem t (z' + k) = dmem s (z + k)) \<longrightarrow>
    separate out (nR * nz) R nR \<longrightarrow> separate out (nR * nz) z nz \<longrightarrow>
    separate out' (nR * nz) R' nR \<longrightarrow> separate out' (nR * nz) z' nz \<longrightarrow>
    0 \<le> i \<longrightarrow> i < nR \<longrightarrow> 0 \<le> j \<longrightarrow> j < nz \<longrightarrow>
    dmem (final (calc_potential parse ev nR R' nz z' npot pot_type' pot_args' out' t)) (out' + (i * nz + j)) =
    dmem (final (calc_potential parse ev nR R nz z npot pot_type pot_args out s)) (out + (i * nz + j))) \<and>
   (reads_only parse npot pot_type n \<longrightarrow>
    (\<forall>k. 0 \<le> k \<and> k < npot \<longrightarrow> pot_type' k = pot_type k) \<longrightarrow>
    (\<forall>k. 0 \<le> k \<and> k < n \<longrightarrow> dmem t (pot_args' + k) = dmem s (pot_args + k)) \<longrightarrow>
    (\<forall>k. 0 \<le> k \<and> k < nR \<longrightarrow> dmem t (R' + k) = dmem s (R + k)) \<longrightarrow>
    (\<forall>k. 0 \<le> k \<and> k < nR \<longrightarrow> dmem t (z' + k) = dmem s (z + k)) \<longrightarrow>
    separate out nR R nR \<longrightarrow> separate out nR z nR \<longrightarrow>
    separate out' nR R' nR \<longrightarrow> separate out' nR z' nR \<longrightarrow>
    0 \<le> i \<longrightarrow> i < nR \<longrightarrow>
    dmem (final (eval_potential parse ev nR R' z' npot pot_type' pot_args' out' t)) (out' + i) =
    dmem (final (eval_potential parse ev nR R z npot pot_type pot_args out s)) (out + i))"
proof (intro conjI impI)
  assume reads: "reads_only parse npot pot_type n"
      "\<forall>k. 0 \<le> k \<and> k < npot \<longrightarrow> pot_type' k = pot_type k"
      "\<forall>k. 0 \<le> k \<and> k < n \<longrightarrow> dmem t (pot_args' + k) = dmem s (pot_args + k)"
    and Rs: "\<forall>k. 0 \<le> k \<and> k < nR \<longrightarrow> dmem t (R' + k) = dmem s (R + k)"
    and zs: "\<forall>k. 0 \<le> k \<and> k < nz \<longrightarrow> dmem t (z' + k) = dmem s (z + k)"
    and sep: "separate out (nR * nz) R nR" "separate out (nR * nz) z nz"
      "separate out' (nR * nz) R' nR" "separate out' (nR * nz) z' nz"
    and ij: "0 \<le> i" "i < nR" "0 \<le> j" "j < nz"
  have same: "parsed_args parse npot pot_type' pot_args' (dmem t) = parsed_args parse npot pot_type pot_args (dmem s)"
    using reads by (rule reads_only_parsed_args)
  have "dmem (final (calc_potential parse ev nR R' nz z' npot pot_type' pot_args' out' t)) (out' + (i * nz + j)) =
        ev (dmem t (R' + i)) (dmem t (z' + j)) npot (parsed_args parse npot pot_type' pot_args' (dmem t))"
    using sep(3,4) ij by (rule dmem_calc_cell)
  also have "\<dots> = ev (dmem s (R + i)) (dmem s (z + j)) npot (parsed_args parse npot pot_type pot_args (dmem s))"
    using Rs zs ij same by simp
  also have "\<dots> = dmem (final (calc_potential parse ev nR R nz z npot pot_type pot_args out s)) (out + (i * nz + j))"
    using sep(1,2) ij by (rule dmem_calc_cell [symmetric])
  finally show "dmem (final (calc_potential parse ev nR R' nz z' npot pot_type' pot_args' out' t)) (out' + (i * nz + j)) =
    dmem (final (calc_potential parse ev nR R nz z npot pot_type pot_args out s)) (out + (i * nz + j))" .
next
  assume reads: "reads_only parse npot pot_type n"
      "\<forall>k. 0 \<le> k \<and> k < npot \<longrightarrow> pot_type' k = pot_type k"
      "\<forall>k. 0 \<le> k \<and> k < n \<longrightarrow> dmem t (pot_args' + k) = dmem s (pot_args + k)"
    and Rs: "\<forall>k. 0 \<le> k \<and> k < nR \<longrightarrow> dmem t (R' + k) = dmem s (R + k)"
    and zs: "\<forall>k. 0 \<le> k \<and> k < nR \<longrightarrow> dmem t (z' + k) = dmem s (z + k)"
    and sep: "separate out nR R nR" "separate out nR z nR"
      "separate out' nR R' nR" "separate out' nR z' nR"
    and i: "0 \<le> i" "i < nR"
  have same: "parsed_args parse npot pot_type' pot_args' (dmem t) = parsed_args parse npot pot_type pot_args (dmem s)"
    using reads by (rule reads_only_parsed_args)
  have "dmem (final (eval_potential parse ev nR R' z' npot pot_type' pot_args' out' t)) (out' + i) =
        ev (dmem t (R' + i)) (dmem t (z' + i)) npot (parsed_args parse npot pot_type' pot_args' (dmem t))"
    using sep(3,4) i by (rule dmem_eval_cell)
  also have "\<dots> = ev (dmem s (R + i)) (dmem s (z + i)) npot (parsed_args parse npot pot_type pot_args (dmem s))"
    using Rs zs i same by simp
  also have "\<dots> = dmem (final (eval_potential parse ev nR R z npot pot_type pot_args out s)) (out + i)"
    using sep(1,2) i by (rule dmem_eval_cell [symmetric])
  finally show "dmem (final (eval_potential parse ev nR R' z' npot pot_type' pot_args' out' t)) (out' + i) =
    dmem (final (eval_potential parse ev nR R z npot pot_type pot_args out s)) (out + i)" .
qed

theorem output_depends_on_declared_inputs_only_witness:
  "dmem (final (calc_potential sample_parse sample_eval 2 10 3 20 1 other_types 30 100 other_state)) (100 + (1 * 3 + 2)) =
   dmem (final (calc_potential sample_parse sample_eval 2 10 3 20 1 (\<lambda>k. 0) 30 100 sample_state)) (100 + (1 * 3 + 2)) \<and>
   dmem (final (eval_potential sample_parse sample_eval 2 10 20 1 other_types 30 100 other_state)) (100 + 1) =
   dmem (final (eval_potential sample_parse sample_eval 2 10 20 1 (\<lambda>k. 0) 30 100 sample_state)) (100 + 1)"
proof -
  have sep: "separate 100 (2 * 3) 10 2" "separate 100 (2 * 3) 20 3" "separate 100 2 10 2" "separate 100 2 20 2"
    by (simp_all add: separate_def)
  have t: "\<forall>k. 0 \<le> k \<and> k < 1 \<longrightarrow> other_types k = 0"
    by (simp add: other_types_def)
  have p: "\<forall>k. 0 \<le> k \<and> k < 1 \<longrightarrow> dmem other_state (30 + k) = dmem sample_state (30 + k)"
    by (simp add: other_state_def sample_state_def)
  have R: "\<forall>k. 0 \<le> k \<and> k < 2 \<longrightarrow> dmem other_state (10 + k) = dmem sample_state (10 + k)"
    by (simp add: other_state_def sample_state_def)
  have z: "\<forall>k. 0 \<le> k \<and> k < 3 \<longrightarrow> dmem other_state (20 + k) = dmem sample_state (20 + k)"
    by (simp add: other_state_def sample_state_def)
  have z2: "\<forall>k. 0 \<le> k \<and> k < 2 \<longrightarrow> dmem other_state (20 + k) = dmem sample_state (20 + k)"
    by (simp add: other_state_def sample_state_def)
  note r = sample_parse_reads_only
  show ?thesis
    using output_depends_on_declared_inputs_only [where out = 100 and nR = 2 and nz = 3 and R = 10
        and z = 20 and out' = 100 and R' = 10 and z' = 20 and t = other_state and s = sample_state
        and parse = sample_parse and npot = 1 and pot_type' = other_types and pot_type = "\<lambda>k. 0"
        and pot_args' = 30 and pot_args = 30 and i = 1 and j = 2 and ev = sample_eval and n = 1]
      sep r t p R z z2
    by simp
qed

end
